theory Spec2Isabelle
  imports Main "HOL-Library.AList"
begin

section \<open>Python values\<close>

text \<open>
  The engine threads a \<^verbatim>\<open>Dict[str, Any]\<close> through a run. The values it can hold are
  modelled by a datatype; a dictionary is an association list in insertion order, which
  is the order Python keeps. Values are compared by value: two references to one
  dictionary object are two equal values here.
\<close>

datatype pyval =
    VNone
  | VBool bool
  | VInt int
  | VStr string
  | VList "pyval list"
  | VDict "(string \<times> pyval) list"

type_synonym pydict = "(string \<times> pyval) list"

datatype pyexc = KeyError string | TypeError

text \<open>Truth value of an object, as \<^verbatim>\<open>if\<close> and \<^verbatim>\<open>while\<close> take it.\<close>

fun truthy :: "pyval \<Rightarrow> bool" where
  "truthy VNone = False"
| "truthy (VBool b) = b"
| "truthy (VInt i) = (i \<noteq> 0)"
| "truthy (VStr s) = (s \<noteq> [])"
| "truthy (VList xs) = (xs \<noteq> [])"
| "truthy (VDict d) = (d \<noteq> [])"

text \<open>\<^verbatim>\<open>bool\<close> is a subclass of \<^verbatim>\<open>int\<close>: \<^verbatim>\<open>True\<close> counts as 1.\<close>

fun num_of :: "pyval \<Rightarrow> int option" where
  "num_of (VInt i) = Some i"
| "num_of (VBool b) = Some (if b then 1 else 0)"
| "num_of _ = None"

fun all_eq :: "(pyval \<Rightarrow> bool) list \<Rightarrow> pyval list \<Rightarrow> bool" where
  "all_eq [] [] = True"
| "all_eq (f # fs) (y # ys) = (f y \<and> all_eq fs ys)"
| "all_eq _ _ = False"

text \<open>\<^verbatim>\<open>x == y\<close>.\<close>

primrec py_eq :: "pyval \<Rightarrow> pyval \<Rightarrow> bool" where
  "py_eq VNone y = (y = VNone)"
| "py_eq (VBool b) y = (num_of y = Some (if b then 1 else 0))"
| "py_eq (VInt i) y = (num_of y = Some i)"
| "py_eq (VStr s) y = (y = VStr s)"
| "py_eq (VList xs) y = (case y of VList ys \<Rightarrow> all_eq (map py_eq xs) ys | _ \<Rightarrow> False)"
| "py_eq (VDict d) y =
     (case y of
        VDict d' \<Rightarrow> length d = length d' \<and>
          list_all (\<lambda>(k, f). case map_of d' k of None \<Rightarrow> False | Some v \<Rightarrow> f v)
                   (map (map_prod id py_eq) d)
      | _ \<Rightarrow> False)"

fun lex_lt ::
  "(pyval \<Rightarrow> bool) list \<Rightarrow> (pyval \<Rightarrow> pyexc + bool) list \<Rightarrow> pyval list \<Rightarrow> pyexc + bool" where
  "lex_lt (e # es) (l # ls) (y # ys) = (if e y then lex_lt es ls ys else l y)"
| "lex_lt [] _ ys = Inr (ys \<noteq> [])"
| "lex_lt _ _ _ = Inr False"

text \<open>
  \<^verbatim>\<open>x < y\<close>: numbers by value, strings and lists lexicographically, every other pair of
  operands raises \<^verbatim>\<open>TypeError\<close>.
\<close>

primrec py_lt :: "pyval \<Rightarrow> pyval \<Rightarrow> pyexc + bool" where
  "py_lt VNone y = Inl TypeError"
| "py_lt (VBool b) y =
     (case num_of y of Some j \<Rightarrow> Inr ((if b then 1 else 0) < j) | None \<Rightarrow> Inl TypeError)"
| "py_lt (VInt i) y = (case num_of y of Some j \<Rightarrow> Inr (i < j) | None \<Rightarrow> Inl TypeError)"
| "py_lt (VStr s) y =
     (case y of
        VStr t \<Rightarrow> Inr (lexordp (\<lambda>a b. (of_char a :: nat) < of_char b) s t)
      | _ \<Rightarrow> Inl TypeError)"
| "py_lt (VList xs) y =
     (case y of
        VList ys \<Rightarrow> lex_lt (map py_eq xs) (map py_lt xs) ys
      | _ \<Rightarrow> Inl TypeError)"
| "py_lt (VDict d) y = Inl TypeError"

text \<open>\<^verbatim>\<open>x + n\<close> for an integer literal \<^verbatim>\<open>n\<close>.\<close>

definition py_add_int :: "pyval \<Rightarrow> int \<Rightarrow> pyexc + pyval" where
  "py_add_int x n = (case num_of x of Some i \<Rightarrow> Inr (VInt (i + n)) | None \<Rightarrow> Inl TypeError)"

text \<open>\<^verbatim>\<open>x[k]\<close> and \<^verbatim>\<open>x[k] = v\<close> for a string key \<^verbatim>\<open>k\<close>.\<close>

fun py_getitem :: "pyval \<Rightarrow> string \<Rightarrow> pyexc + pyval" where
  "py_getitem (VDict d) k = (case map_of d k of None \<Rightarrow> Inl (KeyError k) | Some v \<Rightarrow> Inr v)"
| "py_getitem _ k = Inl TypeError"

fun py_setitem :: "pyval \<Rightarrow> string \<Rightarrow> pyval \<Rightarrow> pyexc + pyval" where
  "py_setitem (VDict d) k v = Inr (VDict (AList.update k v d))"
| "py_setitem _ k v = Inl TypeError"

text \<open>\<^verbatim>\<open>d.update(r)\<close>: the items of \<^verbatim>\<open>r\<close> are stored into \<^verbatim>\<open>d\<close> one by one.\<close>

definition dict_update :: "pydict \<Rightarrow> pydict \<Rightarrow> pydict" where
  "dict_update d r = fold (\<lambda>(k, v). AList.update k v) r d"

section \<open>Graph definitions and the engine object\<close>

record NodeConfig =
  name :: string
  tool :: string
  params :: "pydict option"

record EdgeConfig =
  from_node :: string
  to_node :: string
  condition :: "string option"

record WorkflowEngine =
  graph_id :: string
  nodes :: "(string \<times> NodeConfig) list"
  edges :: "(string \<times> (string \<times> string option) list) list"
  execution_log :: "pyval list"

text \<open>
  What lies outside the engine: the module-level \<^verbatim>\<open>tool_registry\<close>, Python's
  \<^verbatim>\<open>eval\<close> and the clock.

  A tool call \<^verbatim>\<open>await tool_func(state, **node_config.params)\<close> is a function of the
  state and the parameters. It either returns a mapping, a new one at every call, or
  raises an \<^verbatim>\<open>Exception\<close> whose \<^verbatim>\<open>str\<close> is the message (a failure to bind the
  parameters is such an exception). A tool changes the state only through the mapping it
  returns. Signals that are not \<^verbatim>\<open>Exception\<close>s (interpreter exit, task cancellation)
  are not modelled.

  \<^verbatim>\<open>eval(condition, {"state": state})\<close> either yields a value or raises; it is a
  function of the condition and the state and leaves the state as it is.

  \<^verbatim>\<open>now_iso k\<close> is what the \<open>k\<close>-th call of \<^verbatim>\<open>datetime.now().isoformat()\<close> of a run
  returns, counting from 0.
\<close>

datatype tool_outcome = Returned pydict | Raised string

datatype eval_outcome = Value pyval | EvalRaised

type_synonym tool_func = "pydict \<Rightarrow> pydict option \<Rightarrow> tool_outcome"

record env =
  tool_registry :: "string \<rightharpoonup> tool_func"
  py_eval :: "string \<Rightarrow> pydict \<Rightarrow> eval_outcome"
  now_iso :: "nat \<Rightarrow> string"

text \<open>
  \<^verbatim>\<open>self.nodes = {node.name: node for node in nodes}\<close>: a later definition with a name
  already present replaces the value and keeps the key's position.
\<close>

definition build_nodes :: "NodeConfig list \<Rightarrow> (string \<times> NodeConfig) list" where
  "build_nodes ns = fold (\<lambda>n d. AList.update (name n) n d) ns []"

definition add_edge ::
  "EdgeConfig \<Rightarrow> (string \<times> (string \<times> string option) list) list
     \<Rightarrow> (string \<times> (string \<times> string option) list) list" where
  "add_edge e m =
     (let m1 = (if map_of m (from_node e) = None then AList.update (from_node e) [] m else m)
      in case map_of m1 (from_node e) of
           None \<Rightarrow> m1
         | Some l \<Rightarrow> AList.update (from_node e) (l @ [(to_node e, condition e)]) m1)"

definition build_edge_map ::
  "EdgeConfig list \<Rightarrow> (string \<times> (string \<times> string option) list) list" where
  "build_edge_map es = fold add_edge es []"

definition init :: "string \<Rightarrow> NodeConfig list \<Rightarrow> EdgeConfig list \<Rightarrow> WorkflowEngine" where
  "init gid ns es =
     \<lparr>graph_id = gid, nodes = build_nodes ns, edges = build_edge_map es, execution_log = []\<rparr>"

section \<open>Conditions and next-node selection\<close>

definition evaluate_condition :: "env \<Rightarrow> string option \<Rightarrow> pydict \<Rightarrow> pyval" where
  "evaluate_condition E c s =
     (case c of
        None \<Rightarrow> VBool True
      | Some x \<Rightarrow>
          if x = [] then VBool True
          else (case py_eval E x s of Value v \<Rightarrow> v | EvalRaised \<Rightarrow> VBool False))"

fun first_match :: "env \<Rightarrow> (string \<times> string option) list \<Rightarrow> pydict \<Rightarrow> string option" where
  "first_match E [] s = None"
| "first_match E ((n, c) # r) s =
     (if truthy (evaluate_condition E c s) then Some n else first_match E r s)"

definition get_next_node :: "WorkflowEngine \<Rightarrow> env \<Rightarrow> string \<Rightarrow> pydict \<Rightarrow> string option" where
  "get_next_node W E current s =
     (case map_of (edges W) current of None \<Rightarrow> None | Some l \<Rightarrow> first_match E l s)"

section \<open>The interpreter loop\<close>

text \<open>
  The variables of \<^verbatim>\<open>execute\<close>: \<open>cur\<close> is \<^verbatim>\<open>current_node\<close>, \<open>st\<close> is \<^verbatim>\<open>state\<close>,
  \<open>elog\<close> is \<^verbatim>\<open>self.execution_log\<close>, \<open>clk\<close> counts the readings of the clock and
  \<open>sent\<close> collects the entries the websocket accepted.
\<close>

record run_state =
  cur :: "string option"
  st :: pydict
  elog :: "pyval list"
  clk :: nat
  sent :: "pyval list"

text \<open>A fault leaves \<^verbatim>\<open>execute\<close> as an exception; the run state at that moment comes with it.\<close>

type_synonym outcome = "(pyexc \<times> run_state) + run_state"

definition meta_get :: "pydict \<Rightarrow> string \<Rightarrow> pyexc + pyval" where
  "meta_get s k =
     (case map_of s ''_meta'' of None \<Rightarrow> Inl (KeyError ''_meta'') | Some m \<Rightarrow> py_getitem m k)"

definition meta_set :: "pydict \<Rightarrow> string \<Rightarrow> pyval \<Rightarrow> pyexc + pydict" where
  "meta_set s k v =
     (case map_of s ''_meta'' of
        None \<Rightarrow> Inl (KeyError ''_meta'')
      | Some m \<Rightarrow>
          (case py_setitem m k v of
             Inl e \<Rightarrow> Inl e
           | Inr m' \<Rightarrow> Inr (AList.update ''_meta'' m' s)))"

text \<open>\<^verbatim>\<open>state['_meta']['iterations'] += 1\<close>\<close>

definition incr_iterations :: "pydict \<Rightarrow> pyexc + pydict" where
  "incr_iterations s =
     (case meta_get s ''iterations'' of
        Inl e \<Rightarrow> Inl e
      | Inr v \<Rightarrow>
          (case py_add_int v 1 of
             Inl e \<Rightarrow> Inl e
           | Inr v' \<Rightarrow> meta_set s ''iterations'' v'))"

text \<open>
  The loop test \<^verbatim>\<open>current_node and iterations < max_iterations\<close>: the node to visit, or
  \<open>None\<close> to leave the loop. An empty name is false like \<^verbatim>\<open>None\<close>; the comparison is
  not evaluated then.
\<close>

definition loop_test :: "run_state \<Rightarrow> pyexc + string option" where
  "loop_test r =
     (case cur r of
        None \<Rightarrow> Inr None
      | Some n \<Rightarrow>
          if n = [] then Inr None
          else (case meta_get (st r) ''iterations'' of
                  Inl e \<Rightarrow> Inl e
                | Inr a \<Rightarrow>
                    (case meta_get (st r) ''max_iterations'' of
                       Inl e \<Rightarrow> Inl e
                     | Inr b \<Rightarrow>
                         (case py_lt a b of
                            Inl e \<Rightarrow> Inl e
                          | Inr t \<Rightarrow> Inr (if t then Some n else None)))))"

text \<open>The tool call of a visit: the new state and the fields it adds to the log entry.\<close>

definition invoke :: "env \<Rightarrow> NodeConfig \<Rightarrow> pydict \<Rightarrow> pydict \<times> pydict" where
  "invoke E nc s =
     (case tool_registry E (tool nc) of
        Some f \<Rightarrow>
          (case f s (params nc) of
             Returned res \<Rightarrow>
               (dict_update s res, [(''status'', VStr ''success''), (''output'', VDict res)])
           | Raised m \<Rightarrow>
               (AList.update ''_error'' (VStr m) s,
                [(''status'', VStr ''error''), (''error'', VStr m)]))
      | None \<Rightarrow> (s, [(''status'', VStr ''tool_not_found'')]))"

text \<open>
  The websocket, when there is one, is a function that tells whether \<^verbatim>\<open>send_json\<close>
  accepted the entry; a send that raises is swallowed.
\<close>

definition deliver :: "(pyval \<Rightarrow> bool) option \<Rightarrow> pyval \<Rightarrow> pyval list \<Rightarrow> pyval list" where
  "deliver ws entry out =
     (case ws of None \<Rightarrow> out | Some send \<Rightarrow> if send entry then out @ [entry] else out)"

text \<open>One pass through the body of the loop, at node \<open>n\<close>.\<close>

definition visit ::
  "WorkflowEngine \<Rightarrow> env \<Rightarrow> (pyval \<Rightarrow> bool) option \<Rightarrow> string \<Rightarrow> run_state \<Rightarrow> outcome" where
  "visit W E ws n r =
     (case map_of (nodes W) n of
        None \<Rightarrow> Inl (KeyError n, r)
      | Some nc \<Rightarrow>
          (case meta_get (st r) ''iterations'' of
             Inl e \<Rightarrow> Inl (e, r\<lparr>clk := clk r + 1\<rparr>)
           | Inr it \<Rightarrow>
               let entry0 = [(''node'', VStr n), (''timestamp'', VStr (now_iso E (clk r))),
                             (''iteration'', it)];
                   (s1, fields) = invoke E nc (st r);
                   entry = VDict (entry0 @ fields);
                   r1 = r\<lparr>st := s1, elog := elog r @ [entry], clk := clk r + 1,
                          sent := deliver ws entry (sent r)\<rparr>
               in (case incr_iterations s1 of
                     Inl e \<Rightarrow> Inl (e, r1)
                   | Inr s2 \<Rightarrow> Inr (r1\<lparr>st := s2, cur := get_next_node W E n s2\<rparr>))))"

partial_function (option) run_loop ::
  "WorkflowEngine \<Rightarrow> env \<Rightarrow> (pyval \<Rightarrow> bool) option \<Rightarrow> run_state \<Rightarrow> outcome option" where
  "run_loop W E ws r =
     (case loop_test r of
        Inl e \<Rightarrow> Some (Inl (e, r))
      | Inr None \<Rightarrow> Some (Inr r)
      | Inr (Some n) \<Rightarrow>
          (case visit W E ws n r of
             Inl f \<Rightarrow> Some (Inl f)
           | Inr r' \<Rightarrow> run_loop W E ws r'))"

declare run_loop.simps [code]

text \<open>The statements of \<^verbatim>\<open>execute\<close> before and after the loop.\<close>

definition start :: "WorkflowEngine \<Rightarrow> env \<Rightarrow> pydict \<Rightarrow> run_state" where
  "start W E initial_state =
     \<lparr>cur = (case nodes W of [] \<Rightarrow> None | (k, _) # _ \<Rightarrow> Some k),
      st = AList.update ''_meta''
             (VDict [(''start_time'', VStr (now_iso E 0)), (''iterations'', VInt 0),
                     (''max_iterations'', VInt 50)])
             initial_state,
      elog = execution_log W, clk = 1, sent = []\<rparr>"

definition finish :: "env \<Rightarrow> run_state \<Rightarrow> outcome" where
  "finish E r =
     (case meta_set (st r) ''end_time'' (VStr (now_iso E (clk r))) of
        Inl e \<Rightarrow> Inl (e, r\<lparr>clk := clk r + 1\<rparr>)
      | Inr s1 \<Rightarrow>
          (case meta_set s1 ''execution_log'' (VList (elog r)) of
             Inl e \<Rightarrow> Inl (e, r\<lparr>st := s1, clk := clk r + 1\<rparr>)
           | Inr s2 \<Rightarrow> Inr (r\<lparr>st := s2, clk := clk r + 1\<rparr>)))"

definition execute ::
  "WorkflowEngine \<Rightarrow> env \<Rightarrow> pydict \<Rightarrow> (pyval \<Rightarrow> bool) option \<Rightarrow> outcome option" where
  "execute W E initial_state ws =
     (case run_loop W E ws (start W E initial_state) of
        None \<Rightarrow> None
      | Some (Inl f) \<Rightarrow> Some (Inl f)
      | Some (Inr r) \<Rightarrow> Some (finish E r))"

section \<open>Auxiliary notions for the statements\<close>

text \<open>The outgoing edges of a node, in the order of the edge list.\<close>

definition edges_from :: "EdgeConfig list \<Rightarrow> string \<Rightarrow> (string \<times> string option) list" where
  "edges_from es n = map (\<lambda>e. (to_node e, condition e)) (filter (\<lambda>e. from_node e = n) es)"

text \<open>The metadata as \<^verbatim>\<open>execute\<close> sets it up: a count of \<open>i\<close> and the cap of 50.\<close>

definition meta_ok :: "pydict \<Rightarrow> int \<Rightarrow> bool" where
  "meta_ok s i =
     (meta_get s ''iterations'' = Inr (VInt i) \<and> meta_get s ''max_iterations'' = Inr (VInt 50))"

text \<open>No registered tool ever returns the key \<^verbatim>\<open>_meta\<close>.\<close>

definition keeps_meta :: "env \<Rightarrow> bool" where
  "keeps_meta E =
     (\<forall>t f s p res. tool_registry E t = Some f \<longrightarrow> f s p = Returned res \<longrightarrow>
        ''_meta'' \<notin> fst ` set res)"

text \<open>The run state an outcome carries, normal or not.\<close>

definition run_of :: "outcome \<Rightarrow> run_state" where
  "run_of out = (case out of Inl (e, r) \<Rightarrow> r | Inr r \<Rightarrow> r)"

text \<open>The only fault of the outcome, if any, is the lookup of a node the graph does not have.\<close>

definition missing_node :: "WorkflowEngine \<Rightarrow> outcome \<Rightarrow> bool" where
  "missing_node W out =
     (case out of
        Inl (KeyError k, r) \<Rightarrow> map_of (nodes W) k = None
      | Inl (TypeError, r) \<Rightarrow> False
      | Inr r \<Rightarrow> True)"

section \<open>Concrete scenarios\<close>

text \<open>A clock whose readings all fall into the same second.\<close>

definition fast_clock :: "nat \<Rightarrow> string" where
  "fast_clock k = ''2025-01-01T00:00:00''"

text \<open>An evaluator that knows the two Boolean literals and fails on everything else.\<close>

definition lit_eval :: "string \<Rightarrow> pydict \<Rightarrow> eval_outcome" where
  "lit_eval x s =
     (if x = ''True'' then Value (VBool True)
      else if x = ''False'' then Value (VBool False)
      else EvalRaised)"

definition lit_env :: env where
  "lit_env = \<lparr>tool_registry = Map.empty, py_eval = lit_eval, now_iso = fast_clock\<rparr>"

text \<open>Three edges out of \<open>a\<close>; the conditions of the first two are true.\<close>

definition three_edges :: "EdgeConfig list" where
  "three_edges =
     [\<lparr>from_node = ''a'', to_node = ''b'', condition = Some ''True''\<rparr>,
      \<lparr>from_node = ''a'', to_node = ''c'', condition = Some ''True''\<rparr>,
      \<lparr>from_node = ''a'', to_node = ''d'', condition = None\<rparr>]"

definition idle :: run_state where
  "idle = \<lparr>cur = None, st = [], elog = [], clk = 0, sent = []\<rparr>"

text \<open>Two nodes in a row whose tool is registered nowhere, or fails.\<close>

definition two_nodes :: WorkflowEngine where
  "two_nodes =
     init ''g'' [\<lparr>name = ''a'', tool = ''nowhere'', params = Some []\<rparr>,
                 \<lparr>name = ''b'', tool = ''nowhere'', params = Some []\<rparr>]
                [\<lparr>from_node = ''a'', to_node = ''b'', condition = None\<rparr>]"

definition fresh :: run_state where
  "fresh = start two_nodes lit_env [(''x'', VInt 1)]"

definition failing_tool :: tool_func where
  "failing_tool s p = Raised ''boom''"

definition failing_env :: env where
  "failing_env =
     \<lparr>tool_registry = [''nowhere'' \<mapsto> failing_tool], py_eval = lit_eval, now_iso = fast_clock\<rparr>"

text \<open>
  A node that loops to itself without condition, and a tool that returns fresh metadata:
  \<^verbatim>\<open>return {'_meta': {'iterations': 0, 'max_iterations': 50}}\<close>.
\<close>

definition reset_tool :: tool_func where
  "reset_tool s p =
     Returned [(''_meta'', VDict [(''iterations'', VInt 0), (''max_iterations'', VInt 50)])]"

definition reset_env :: env where
  "reset_env =
     \<lparr>tool_registry = [''reset'' \<mapsto> reset_tool], py_eval = lit_eval, now_iso = fast_clock\<rparr>"

definition self_loop :: WorkflowEngine where
  "self_loop =
     init ''g'' [\<lparr>name = ''a'', tool = ''reset'', params = Some []\<rparr>]
                [\<lparr>from_node = ''a'', to_node = ''a'', condition = None\<rparr>]"

definition spinning :: "run_state \<Rightarrow> bool" where
  "spinning r = (cur r = Some ''a'' \<and> (meta_ok (st r) 0 \<or> meta_ok (st r) 1))"

text \<open>
  The refinement loop: a tool that adds 30 to \<^verbatim>\<open>score\<close>, and a self-loop taken while
  \<^verbatim>\<open>state['score'] < 70\<close>. \<open>capped_at_3\<close> is the state at the loop's entry when the
  metadata holds a cap of 3 instead of 50.
\<close>

definition add_score :: tool_func where
  "add_score s p =
     (case map_of s ''score'' of
        None \<Rightarrow> Raised ''score''
      | Some v \<Rightarrow>
          (case py_add_int v 30 of
             Inl e \<Rightarrow> Raised ''unsupported operand''
           | Inr v' \<Rightarrow> Returned [(''score'', v')]))"

definition score_eval :: "string \<Rightarrow> pydict \<Rightarrow> eval_outcome" where
  "score_eval x s =
     (if x = ''state['score'] < 70''
      then (case map_of s ''score'' of
              None \<Rightarrow> EvalRaised
            | Some v \<Rightarrow>
                (case py_lt v (VInt 70) of Inl e \<Rightarrow> EvalRaised | Inr b \<Rightarrow> Value (VBool b)))
      else EvalRaised)"

definition score_env :: env where
  "score_env =
     \<lparr>tool_registry = [''add_score'' \<mapsto> add_score], py_eval = score_eval,
      now_iso = fast_clock\<rparr>"

definition score_loop :: WorkflowEngine where
  "score_loop =
     init ''g'' [\<lparr>name = ''improve'', tool = ''add_score'', params = Some []\<rparr>]
                [\<lparr>from_node = ''improve'', to_node = ''improve'',
                  condition = Some ''state['score'] < 70''\<rparr>]"

definition capped_at_3 :: run_state where
  "capped_at_3 =
     \<lparr>cur = Some ''improve'',
      st = [(''score'', VInt 50),
            (''_meta'', VDict [(''start_time'', VStr ''2025-01-01T00:00:00''),
                               (''iterations'', VInt 0), (''max_iterations'', VInt 3)])],
      elog = [], clk = 1, sent = []\<rparr>"

text \<open>An edge to a node that was never declared, and the run state once it is selected.\<close>

definition dangling :: WorkflowEngine where
  "dangling =
     init ''g'' [\<lparr>name = ''a'', tool = ''nowhere'', params = Some []\<rparr>]
                [\<lparr>from_node = ''a'', to_node = ''ghost'', condition = None\<rparr>]"

definition at_ghost :: run_state where
  "at_ghost =
     \<lparr>cur = Some ''ghost'',
      st = [(''_meta'', VDict [(''start_time'', VStr ''2025-01-01T00:00:00''),
                               (''iterations'', VInt 1), (''max_iterations'', VInt 50)])],
      elog = [VDict [(''node'', VStr ''a''), (''timestamp'', VStr ''2025-01-01T00:00:00''),
                     (''iteration'', VInt 0), (''status'', VStr ''tool_not_found'')]],
      clk = 2, sent = []\<rparr>"

text \<open>Two node definitions with one name.\<close>

definition twice_a :: "NodeConfig list" where
  "twice_a =
     [\<lparr>name = ''a'', tool = ''first'', params = Some []\<rparr>,
      \<lparr>name = ''a'', tool = ''second'', params = Some []\<rparr>]"

text \<open>A tool that returns metadata of its own: \<^verbatim>\<open>return {'_meta': {...}}\<close>.\<close>

definition clobber_tool :: tool_func where
  "clobber_tool s p =
     Returned [(''_meta'', VDict [(''iterations'', VInt 7), (''max_iterations'', VInt 50)])]"

definition clobber_env :: env where
  "clobber_env =
     \<lparr>tool_registry = [''clobber'' \<mapsto> clobber_tool], py_eval = lit_eval,
      now_iso = fast_clock\<rparr>"

definition one_node :: WorkflowEngine where
  "one_node = init ''g'' [\<lparr>name = ''a'', tool = ''clobber'', params = Some []\<rparr>] []"

section \<open>Graph construction\<close>

lemma map_of_add_edge:
  "map_of (add_edge e m) k =
     (if k = from_node e
      then Some ((case map_of m k of None \<Rightarrow> [] | Some l \<Rightarrow> l) @ [(to_node e, condition e)])
      else map_of m k)"
  by (auto simp: add_edge_def Let_def update_conv split: option.splits)

lemma map_of_fold_add_edge:
  "map_of (fold add_edge es m) k =
     (if edges_from es k = [] then map_of m k
      else Some ((case map_of m k of None \<Rightarrow> [] | Some l \<Rightarrow> l) @ edges_from es k))"
proof (induction es arbitrary: m)
  case Nil
  show ?case by (simp add: edges_from_def)
next
  case (Cons e es)
  show ?case
    by (simp add: Cons.IH map_of_add_edge) (auto simp: edges_from_def)
qed

text \<open>The edge map groups the edges by source node and keeps their order.\<close>

lemma map_of_build_edge_map:
  "map_of (build_edge_map es) n = (if edges_from es n = [] then None else Some (edges_from es n))"
  by (simp add: build_edge_map_def map_of_fold_add_edge)

lemma find_snoc:
  "find P (xs @ [x]) =
     (case find P xs of Some y \<Rightarrow> Some y | None \<Rightarrow> if P x then Some x else None)"
  by (induction xs) simp_all

lemma map_of_fold_update_name:
  "map_of (fold (\<lambda>n d. AList.update (name n) n d) ns d) k =
     (case find (\<lambda>n. name n = k) (rev ns) of Some n \<Rightarrow> Some n | None \<Rightarrow> map_of d k)"
proof (induction ns arbitrary: d)
  case Nil
  show ?case by simp
next
  case (Cons a ns)
  show ?case
    by (simp add: Cons.IH find_snoc update_conv split: option.splits)
qed

lemma distinct_fold_update_name:
  "distinct (map fst d) \<Longrightarrow> distinct (map fst (fold (\<lambda>n d. AList.update (name n) n d) ns d))"
  by (induction ns arbitrary: d) (simp_all add: distinct_update)

lemma keys_fold_update_name:
  "fst ` set (fold (\<lambda>n d. AList.update (name n) n d) ns d) = fst ` set d \<union> name ` set ns"
  by (induction ns arbitrary: d) (auto simp: dom_update)

lemma head_fold_update_name:
  "\<exists>v' d'. fold (\<lambda>n d. AList.update (name n) n d) ns ((k, v) # d) = (k, v') # d'"
  by (induction ns arbitrary: v d) auto

text \<open>
  \<^bold>\<open>C3\<close>, as the claim has it, fails: \<^verbatim>\<open>__init__\<close> raises nothing, and no
  \<^verbatim>\<open>DuplicateNodeNameError\<close> exists. Two definitions named \<open>a\<close> give an engine with the
  single node \<open>a\<close>, bound to the second definition, and a run on it starts and completes
  with one visit.
\<close>

theorem duplicate_names_accepted:
  "nodes (init ''g'' twice_a []) =
     [(''a'', \<lparr>name = ''a'', tool = ''second'', params = Some []\<rparr>)] \<and>
   (case execute (init ''g'' twice_a []) lit_env [] None of
      Some (Inr r) \<Rightarrow> length (elog r) | _ \<Rightarrow> 0) = 1"
  by code_simp

text \<open>
  \<^bold>\<open>C3\<close>, amended. Construction succeeds on every sequence of node definitions. The node
  map has one entry for each name that occurs, a name is bound to the last definition
  that carries it, and a run starts at the name of the first definition.
\<close>

theorem init_last_definition_wins:
  "distinct (map fst (nodes (init gid ns es))) \<and>
   fst ` set (nodes (init gid ns es)) = name ` set ns \<and>
   map_of (nodes (init gid ns es)) k = find (\<lambda>n. name n = k) (rev ns) \<and>
   cur (start (init gid (n # ns) es) E s0) = Some (name n)"
proof (intro conjI)
  show "distinct (map fst (nodes (init gid ns es)))"
    by (simp add: init_def build_nodes_def distinct_fold_update_name)
  show "fst ` set (nodes (init gid ns es)) = name ` set ns"
    by (simp add: init_def build_nodes_def keys_fold_update_name)
  show "map_of (nodes (init gid ns es)) k = find (\<lambda>n. name n = k) (rev ns)"
    by (simp add: init_def build_nodes_def map_of_fold_update_name split: option.splits)
  obtain v' d' where
    "fold (\<lambda>n d. AList.update (name n) n d) ns [(name n, n)] = (name n, v') # d'"
    using head_fold_update_name [of ns "name n" n "[]"] by blast
  then show "cur (start (init gid (n # ns) es) E s0) = Some (name n)"
    by (simp add: init_def build_nodes_def start_def)
qed

section \<open>Conditions\<close>

text \<open>
  \<^bold>\<open>C5.\<close> An absent condition (\<^verbatim>\<open>None\<close>, and likewise the empty string, which
  \<^verbatim>\<open>not condition\<close> also accepts without evaluating anything) gives \<^verbatim>\<open>True\<close>.
  When the evaluation of a condition raises, whatever the exception, the result is
  \<^verbatim>\<open>False\<close>. The result is always a value: \<open>evaluate_condition\<close> has no way to
  raise.
\<close>

theorem evaluate_condition_absent_or_failing:
  "evaluate_condition E None s = VBool True \<and>
   evaluate_condition E (Some []) s = VBool True \<and>
   (x \<noteq> [] \<and> py_eval E x s = EvalRaised \<longrightarrow> evaluate_condition E (Some x) s = VBool False)"
  by (simp add: evaluate_condition_def)

theorem evaluate_condition_absent_or_failing_witness:
  "evaluate_condition lit_env None [] = VBool True \<and>
   evaluate_condition lit_env (Some []) [] = VBool True \<and>
   py_eval lit_env ''state['missing'] > 1'' [] = EvalRaised \<and>
   evaluate_condition lit_env (Some ''state['missing'] > 1'') [] = VBool False"
  using evaluate_condition_absent_or_failing [of lit_env "[]" "''state['missing'] > 1''"]
  by (simp add: lit_env_def lit_eval_def)

section \<open>Next-node selection\<close>

lemma first_match_edges_from:
  "first_match E (edges_from es n) s =
     map_option to_node
       (find (\<lambda>e. from_node e = n \<and> truthy (evaluate_condition E (condition e) s)) es)"
  by (induction es) (auto simp: edges_from_def)

lemma get_next_node_init:
  "get_next_node (init gid ns es) E n s =
     map_option to_node
       (find (\<lambda>e. from_node e = n \<and> truthy (evaluate_condition E (condition e) s)) es)"
proof (cases "edges_from es n = []")
  case True
  have "find (\<lambda>e. from_node e = n \<and> truthy (evaluate_condition E (condition e) s)) es = None"
    using True by (auto simp: find_None_iff edges_from_def filter_empty_conv)
  with True show ?thesis
    by (simp add: get_next_node_def init_def map_of_build_edge_map)
next
  case False
  then show ?thesis
    by (simp add: get_next_node_def init_def map_of_build_edge_map first_match_edges_from)
qed

lemma run_loop_no_node: "run_loop W E ws (r\<lparr>cur := None\<rparr>) = Some (Inr (r\<lparr>cur := None\<rparr>))"
  by (subst run_loop.simps) (simp add: loop_test_def)

text \<open>
  \<^bold>\<open>C6.\<close> On an engine built from the edge list \<open>es\<close>, the next node after \<open>n\<close> is the
  target of the first edge of \<open>es\<close> that leaves \<open>n\<close> and whose condition is true in the
  current state: edges declared later are not looked at, however many of them hold.
  When there is no such edge (no edge out of \<open>n\<close> at all, or none that holds), the
  selection gives \<^verbatim>\<open>None\<close> and the loop ends there: the run completes.
\<close>

theorem get_next_node_first_true_edge:
  "get_next_node (init gid ns es) E n s =
     map_option to_node
       (find (\<lambda>e. from_node e = n \<and> truthy (evaluate_condition E (condition e) s)) es) \<and>
   (get_next_node W E n s = None \<longrightarrow>
      run_loop W E ws (r\<lparr>st := s, cur := get_next_node W E n s\<rparr>) =
        Some (Inr (r\<lparr>st := s, cur := None\<rparr>)))"
proof
  show "get_next_node (init gid ns es) E n s =
     map_option to_node
       (find (\<lambda>e. from_node e = n \<and> truthy (evaluate_condition E (condition e) s)) es)"
    by (rule get_next_node_init)
next
  show "get_next_node W E n s = None \<longrightarrow>
      run_loop W E ws (r\<lparr>st := s, cur := get_next_node W E n s\<rparr>) =
        Some (Inr (r\<lparr>st := s, cur := None\<rparr>))"
    using run_loop_no_node [of W E ws "r\<lparr>st := s\<rparr>"] by simp
qed

theorem get_next_node_first_true_edge_witness:
  "get_next_node (init ''g'' [] three_edges) lit_env ''a'' [] = Some ''b'' \<and>
   get_next_node (init ''g'' [] three_edges) lit_env ''b'' [] = None \<and>
   run_loop (init ''g'' [] three_edges) lit_env None (idle\<lparr>st := [], cur := None\<rparr>) =
     Some (Inr (idle\<lparr>st := [], cur := None\<rparr>))"
  using get_next_node_first_true_edge
          [of "''g''" "[]" three_edges lit_env "''a''" "[]"
              "init ''g'' [] three_edges" None idle]
        get_next_node_first_true_edge
          [of "''g''" "[]" three_edges lit_env "''b''" "[]"
              "init ''g'' [] three_edges" None idle]
  by (simp add: three_edges_def lit_env_def lit_eval_def evaluate_condition_def)

section \<open>The empty graph\<close>

text \<open>
  \<^bold>\<open>C10.\<close> On a graph without nodes the loop is not entered: no node is visited, nothing
  is logged and nothing is raised. The state returned is the initial state with
  \<^verbatim>\<open>_meta\<close> set to the start time, an iteration count of 0, the cap, the end time and
  an empty execution log.
\<close>

theorem execute_empty_graph:
  "execute (init gid [] es) E s0 ws =
     Some (Inr \<lparr>cur = None,
                st = AList.update ''_meta''
                       (VDict [(''start_time'', VStr (now_iso E 0)), (''iterations'', VInt 0),
                               (''max_iterations'', VInt 50),
                               (''end_time'', VStr (now_iso E 1)),
                               (''execution_log'', VList [])])
                       s0,
                elog = [], clk = 2, sent = []\<rparr>)"
  apply (simp add: execute_def start_def init_def build_nodes_def)
  apply (subst run_loop.simps)
  apply (simp add: loop_test_def finish_def meta_set_def update_conv)
  done

section \<open>Node visits\<close>

lemma incr_iterations_int:
  assumes "map_of s ''_meta'' = Some (VDict m)" and "map_of m ''iterations'' = Some (VInt i)"
  shows "incr_iterations s =
           Inr (AList.update ''_meta'' (VDict (AList.update ''iterations'' (VInt (i + 1)) m)) s)"
  using assms by (simp add: incr_iterations_def meta_get_def meta_set_def py_add_int_def)

lemma run_loop_visit:
  assumes "loop_test r = Inr (Some n)" and "visit W E ws n r = Inr r'"
  shows "run_loop W E ws r = run_loop W E ws r'"
  using assms by (subst run_loop.simps) simp

text \<open>
  The metadata that \<^verbatim>\<open>execute\<close> installs has an integer count, and a visit that returns
  leaves an integer count behind: the hypothesis on the count in the statements below
  holds at every visit of a run.
\<close>

lemma start_count: "meta_get (st (start W E s0)) ''iterations'' = Inr (VInt 0)"
  by (simp add: start_def meta_get_def update_conv)

lemma incr_iterations_count:
  assumes "incr_iterations s = Inr s'"
  shows "\<exists>i. meta_get s' ''iterations'' = Inr (VInt i)"
proof -
  from assms obtain v where v: "map_of s ''_meta'' = Some v"
    by (auto simp: incr_iterations_def meta_get_def split: option.splits)
  with assms obtain m where m: "v = VDict m"
    by (cases v) (auto simp: incr_iterations_def meta_get_def)
  from assms v m show ?thesis
    by (auto simp: incr_iterations_def meta_get_def meta_set_def py_add_int_def update_conv
        split: option.splits sum.splits)
qed

lemma visit_count:
  assumes "visit W E ws n r = Inr r'"
  shows "\<exists>i. meta_get (st r') ''iterations'' = Inr (VInt i)"
  using assms incr_iterations_count
  by (fastforce simp: visit_def Let_def split: option.splits sum.splits prod.splits)

text \<open>
  \<^bold>\<open>C7.\<close> A visit to a node whose tool is not in the registry appends one entry with
  status \<^verbatim>\<open>tool_not_found\<close> and changes nothing in the state except the iteration
  count, which goes up by one. The next node is selected in that state, and the loop goes
  on from there.
\<close>

theorem visit_tool_not_found:
  assumes "map_of (nodes W) n = Some nc"
    and "tool_registry E (tool nc) = None"
    and "map_of (st r) ''_meta'' = Some (VDict m)"
    and "map_of m ''iterations'' = Some (VInt i)"
  shows "let s' = AList.update ''_meta''
                    (VDict (AList.update ''iterations'' (VInt (i + 1)) m)) (st r);
             entry = VDict [(''node'', VStr n), (''timestamp'', VStr (now_iso E (clk r))),
                            (''iteration'', VInt i), (''status'', VStr ''tool_not_found'')];
             r' = r\<lparr>st := s', cur := get_next_node W E n s', elog := elog r @ [entry],
                    clk := clk r + 1, sent := deliver ws entry (sent r)\<rparr>
         in visit W E ws n r = Inr r' \<and>
            (loop_test r = Inr (Some n) \<longrightarrow> run_loop W E ws r = run_loop W E ws r')"
proof -
  let ?s = "AList.update ''_meta'' (VDict (AList.update ''iterations'' (VInt (i + 1)) m)) (st r)"
  let ?e = "VDict [(''node'', VStr n), (''timestamp'', VStr (now_iso E (clk r))),
                   (''iteration'', VInt i), (''status'', VStr ''tool_not_found'')]"
  have inv: "invoke E nc (st r) = (st r, [(''status'', VStr ''tool_not_found'')])"
    using assms(2) by (simp add: invoke_def)
  have mg: "meta_get (st r) ''iterations'' = Inr (VInt i)"
    using assms(3,4) by (simp add: meta_get_def)
  have v: "visit W E ws n r =
      Inr (r\<lparr>st := ?s, cur := get_next_node W E n ?s, elog := elog r @ [?e],
            clk := clk r + 1, sent := deliver ws ?e (sent r)\<rparr>)"
    by (simp add: visit_def Let_def assms(1) mg inv incr_iterations_int [OF assms(3,4)])
  show ?thesis
    unfolding Let_def using v run_loop_visit [OF _ v] by blast
qed

theorem visit_tool_not_found_witness:
  "visit two_nodes lit_env None ''a'' fresh =
     Inr \<lparr>cur = Some ''b'',
          st = [(''x'', VInt 1),
                (''_meta'', VDict [(''start_time'', VStr ''2025-01-01T00:00:00''),
                                   (''iterations'', VInt 1), (''max_iterations'', VInt 50)])],
          elog = [VDict [(''node'', VStr ''a''), (''timestamp'', VStr ''2025-01-01T00:00:00''),
                         (''iteration'', VInt 0), (''status'', VStr ''tool_not_found'')]],
          clk = 2, sent = []\<rparr> \<and>
   loop_test fresh = Inr (Some ''a'') \<and>
   run_loop two_nodes lit_env None fresh =
     run_loop two_nodes lit_env None
       \<lparr>cur = Some ''b'',
        st = [(''x'', VInt 1),
              (''_meta'', VDict [(''start_time'', VStr ''2025-01-01T00:00:00''),
                                 (''iterations'', VInt 1), (''max_iterations'', VInt 50)])],
        elog = [VDict [(''node'', VStr ''a''), (''timestamp'', VStr ''2025-01-01T00:00:00''),
                       (''iteration'', VInt 0), (''status'', VStr ''tool_not_found'')]],
        clk = 2, sent = []\<rparr>"
  using visit_tool_not_found
          [of two_nodes "''a''" "\<lparr>name = ''a'', tool = ''nowhere'', params = Some []\<rparr>"
              lit_env fresh
              "[(''start_time'', VStr ''2025-01-01T00:00:00''), (''iterations'', VInt 0),
                (''max_iterations'', VInt 50)]" 0 None]
  by (simp add: two_nodes_def fresh_def start_def init_def build_nodes_def build_edge_map_def
      add_edge_def lit_env_def fast_clock_def get_next_node_def evaluate_condition_def
      deliver_def loop_test_def meta_get_def Let_def numeral_2_eq_2)

text \<open>
  \<^bold>\<open>C8.\<close> When the tool of the visited node raises, the visit itself does not raise: the
  message is stored under the key \<^verbatim>\<open>_error\<close> of the state, one entry with status
  \<^verbatim>\<open>error\<close> and the message is appended to the log, the iteration count goes up by
  one, the next node is selected in the resulting state, and the loop goes on from there.
\<close>

theorem visit_tool_error:
  assumes "map_of (nodes W) n = Some nc"
    and "tool_registry E (tool nc) = Some f"
    and "f (st r) (params nc) = Raised msg"
    and "map_of (st r) ''_meta'' = Some (VDict m)"
    and "map_of m ''iterations'' = Some (VInt i)"
  shows "let s' = AList.update ''_meta'' (VDict (AList.update ''iterations'' (VInt (i + 1)) m))
                    (AList.update ''_error'' (VStr msg) (st r));
             entry = VDict [(''node'', VStr n), (''timestamp'', VStr (now_iso E (clk r))),
                            (''iteration'', VInt i), (''status'', VStr ''error''),
                            (''error'', VStr msg)];
             r' = r\<lparr>st := s', cur := get_next_node W E n s', elog := elog r @ [entry],
                    clk := clk r + 1, sent := deliver ws entry (sent r)\<rparr>
         in visit W E ws n r = Inr r' \<and>
            map_of (st r') ''_error'' = Some (VStr msg) \<and>
            (loop_test r = Inr (Some n) \<longrightarrow> run_loop W E ws r = run_loop W E ws r')"
proof -
  let ?s = "AList.update ''_meta'' (VDict (AList.update ''iterations'' (VInt (i + 1)) m))
              (AList.update ''_error'' (VStr msg) (st r))"
  let ?e = "VDict [(''node'', VStr n), (''timestamp'', VStr (now_iso E (clk r))),
                   (''iteration'', VInt i), (''status'', VStr ''error''),
                   (''error'', VStr msg)]"
  have inv: "invoke E nc (st r) =
      (AList.update ''_error'' (VStr msg) (st r),
       [(''status'', VStr ''error''), (''error'', VStr msg)])"
    using assms(2,3) by (simp add: invoke_def)
  have mg: "meta_get (st r) ''iterations'' = Inr (VInt i)"
    using assms(4,5) by (simp add: meta_get_def)
  have m': "map_of (AList.update ''_error'' (VStr msg) (st r)) ''_meta'' = Some (VDict m)"
    using assms(4) by (simp add: update_conv)
  have v: "visit W E ws n r =
      Inr (r\<lparr>st := ?s, cur := get_next_node W E n ?s, elog := elog r @ [?e],
            clk := clk r + 1, sent := deliver ws ?e (sent r)\<rparr>)"
    by (simp add: visit_def Let_def assms(1) mg inv incr_iterations_int [OF m' assms(5)])
  show ?thesis
    unfolding Let_def using v run_loop_visit [OF _ v] by (simp add: update_conv)
qed

theorem visit_tool_error_witness:
  "visit two_nodes failing_env None ''a'' fresh =
     Inr \<lparr>cur = Some ''b'',
          st = [(''x'', VInt 1),
                (''_meta'', VDict [(''start_time'', VStr ''2025-01-01T00:00:00''),
                                   (''iterations'', VInt 1), (''max_iterations'', VInt 50)]),
                (''_error'', VStr ''boom'')],
          elog = [VDict [(''node'', VStr ''a''), (''timestamp'', VStr ''2025-01-01T00:00:00''),
                         (''iteration'', VInt 0), (''status'', VStr ''error''),
                         (''error'', VStr ''boom'')]],
          clk = 2, sent = []\<rparr> \<and>
   loop_test fresh = Inr (Some ''a'') \<and>
   run_loop two_nodes failing_env None fresh =
     run_loop two_nodes failing_env None
       \<lparr>cur = Some ''b'',
        st = [(''x'', VInt 1),
              (''_meta'', VDict [(''start_time'', VStr ''2025-01-01T00:00:00''),
                                 (''iterations'', VInt 1), (''max_iterations'', VInt 50)]),
              (''_error'', VStr ''boom'')],
        elog = [VDict [(''node'', VStr ''a''), (''timestamp'', VStr ''2025-01-01T00:00:00''),
                       (''iteration'', VInt 0), (''status'', VStr ''error''),
                       (''error'', VStr ''boom'')]],
        clk = 2, sent = []\<rparr>"
  using visit_tool_error
          [of two_nodes "''a''" "\<lparr>name = ''a'', tool = ''nowhere'', params = Some []\<rparr>"
              failing_env failing_tool fresh "''boom''"
              "[(''start_time'', VStr ''2025-01-01T00:00:00''), (''iterations'', VInt 0),
                (''max_iterations'', VInt 50)]" 0 None]
  by (simp add: two_nodes_def fresh_def start_def init_def build_nodes_def build_edge_map_def
      add_edge_def lit_env_def failing_env_def failing_tool_def fast_clock_def
      get_next_node_def evaluate_condition_def deliver_def loop_test_def meta_get_def Let_def
      numeral_2_eq_2)

section \<open>Merging a tool's output\<close>

lemma map_of_dict_update:
  "map_of (dict_update s res) k =
     (case map_of (rev res) k of Some v \<Rightarrow> Some v | None \<Rightarrow> map_of s k)"
  unfolding dict_update_def
proof (induction res arbitrary: s)
  case Nil
  show ?case by simp
next
  case (Cons a res)
  obtain a1 a2 where a: "a = (a1, a2)" by (cases a)
  show ?case
    by (simp add: a Cons.IH update_conv map_add_def split: option.splits)
qed

lemma map_of_dict_update_other:
  assumes "k \<notin> fst ` set res"
  shows "map_of (dict_update s res) k = map_of s k"
proof -
  from assms have "map_of (rev res) k = None"
    by (simp add: map_of_eq_None_iff)
  then show ?thesis by (simp add: map_of_dict_update)
qed

lemma map_of_dict_update_in:
  assumes "distinct (map fst res)" and "(k, v) \<in> set res"
  shows "map_of (dict_update s res) k = Some v"
proof -
  from assms have "map_of (rev res) k = Some v"
    by (intro map_of_is_SomeI) (simp_all add: rev_map [symmetric])
  then show ?thesis by (simp add: map_of_dict_update)
qed

lemma invoke_keeps_meta:
  assumes "keeps_meta E"
  shows "map_of (fst (invoke E nc s)) ''_meta'' = map_of s ''_meta''"
proof (cases "tool_registry E (tool nc)")
  case None
  then show ?thesis by (simp add: invoke_def)
next
  case (Some f)
  show ?thesis
  proof (cases "f s (params nc)")
    case (Returned res)
    with assms Some have "''_meta'' \<notin> fst ` set res"
      unfolding keeps_meta_def by blast
    with Some Returned show ?thesis
      by (simp add: invoke_def map_of_dict_update_other)
  next
    case (Raised msg)
    with Some show ?thesis by (simp add: invoke_def update_conv)
  qed
qed

lemma keeps_meta_score_env: "keeps_meta score_env"
  by (auto simp: keeps_meta_def score_env_def add_score_def py_add_int_def
      split: option.splits sum.splits if_splits)

text \<open>
  \<^bold>\<open>C4\<close>, as the claim has it, fails: the mapping a tool returns is merged over the whole
  state, the key \<^verbatim>\<open>_meta\<close> included. Here a single node's tool returns metadata with a
  count of 7; the run ends with a count of 8, and the start time is gone.
\<close>

theorem tool_output_replaces_metadata:
  "(case execute one_node clobber_env [] None of
      Some (Inr r) \<Rightarrow>
        meta_get (st r) ''iterations'' = Inr (VInt 8) \<and>
        meta_get (st r) ''start_time'' = Inl (KeyError ''start_time'')
    | _ \<Rightarrow> False)"
  by code_simp

text \<open>
  \<^bold>\<open>C4\<close>, amended. The merge is a shallow overwrite of the whole state. When no registered
  tool returns the key \<^verbatim>\<open>_meta\<close>, a visit leaves the metadata as it was, up to the
  iteration count, which goes up by one. When the tool of the node returns a mapping
  with the key \<^verbatim>\<open>_meta\<close>, the metadata after the merge is the value the tool returned.
\<close>

theorem visit_metadata_merge:
  assumes "map_of (nodes W) n = Some nc"
    and "map_of (st r) ''_meta'' = Some (VDict m)"
    and "map_of m ''iterations'' = Some (VInt i)"
  shows "(keeps_meta E \<longrightarrow>
            (\<exists>r'. visit W E ws n r = Inr r' \<and>
                  map_of (st r') ''_meta'' =
                    Some (VDict (AList.update ''iterations'' (VInt (i + 1)) m)))) \<and>
         (\<forall>f res v. tool_registry E (tool nc) = Some f \<and> f (st r) (params nc) = Returned res \<and>
             distinct (map fst res) \<and> (''_meta'', v) \<in> set res \<longrightarrow>
             map_of (fst (invoke E nc (st r))) ''_meta'' = Some v)"
proof (intro conjI impI allI)
  assume k: "keeps_meta E"
  obtain s1 fields where inv: "invoke E nc (st r) = (s1, fields)"
    by (cases "invoke E nc (st r)")
  have s1: "map_of s1 ''_meta'' = Some (VDict m)"
    using invoke_keeps_meta [OF k, of nc "st r"] inv assms(2) by simp
  have mg: "meta_get (st r) ''iterations'' = Inr (VInt i)"
    using assms(2,3) by (simp add: meta_get_def)
  show "\<exists>r'. visit W E ws n r = Inr r' \<and>
             map_of (st r') ''_meta'' = Some (VDict (AList.update ''iterations'' (VInt (i + 1)) m))"
    by (simp add: visit_def Let_def assms(1) mg inv incr_iterations_int [OF s1 assms(3)]
        update_conv)
next
  fix f res v
  assume a: "tool_registry E (tool nc) = Some f \<and> f (st r) (params nc) = Returned res \<and>
             distinct (map fst res) \<and> (''_meta'', v) \<in> set res"
  then show "map_of (fst (invoke E nc (st r))) ''_meta'' = Some v"
    by (simp add: invoke_def map_of_dict_update_in)
qed

theorem visit_metadata_merge_witness:
  "keeps_meta score_env \<and>
   (\<exists>r'. visit score_loop score_env None ''improve''
            (start score_loop score_env [(''score'', VInt 50)]) = Inr r' \<and>
         map_of (st r') ''_meta'' =
           Some (VDict [(''start_time'', VStr ''2025-01-01T00:00:00''),
                        (''iterations'', VInt 1), (''max_iterations'', VInt 50)])) \<and>
   map_of (fst (invoke clobber_env \<lparr>name = ''a'', tool = ''clobber'', params = Some []\<rparr>
                  (st (start one_node clobber_env [])))) ''_meta'' =
     Some (VDict [(''iterations'', VInt 7), (''max_iterations'', VInt 50)])"
proof (intro conjI)
  show "keeps_meta score_env" by (rule keeps_meta_score_env)
next
  have n: "map_of (nodes score_loop) ''improve'' =
             Some \<lparr>name = ''improve'', tool = ''add_score'', params = Some []\<rparr>"
    by (simp add: score_loop_def init_def build_nodes_def)
  have m: "map_of (st (start score_loop score_env [(''score'', VInt 50)])) ''_meta'' =
             Some (VDict [(''start_time'', VStr ''2025-01-01T00:00:00''),
                          (''iterations'', VInt 0), (''max_iterations'', VInt 50)])"
    by (simp add: start_def score_env_def fast_clock_def)
  have i: "map_of [(''start_time'', VStr ''2025-01-01T00:00:00''),
                   (''iterations'', VInt 0), (''max_iterations'', VInt 50)] ''iterations'' =
             Some (VInt 0)"
    by simp
  from visit_metadata_merge [OF n m i, of score_env None] keeps_meta_score_env
  show "\<exists>r'. visit score_loop score_env None ''improve''
            (start score_loop score_env [(''score'', VInt 50)]) = Inr r' \<and>
         map_of (st r') ''_meta'' =
           Some (VDict [(''start_time'', VStr ''2025-01-01T00:00:00''),
                        (''iterations'', VInt 1), (''max_iterations'', VInt 50)])"
    by simp
next
  have n: "map_of (nodes one_node) ''a'' =
             Some \<lparr>name = ''a'', tool = ''clobber'', params = Some []\<rparr>"
    by (simp add: one_node_def init_def build_nodes_def)
  have m: "map_of (st (start one_node clobber_env [])) ''_meta'' =
             Some (VDict [(''start_time'', VStr ''2025-01-01T00:00:00''),
                          (''iterations'', VInt 0), (''max_iterations'', VInt 50)])"
    by (simp add: start_def clobber_env_def fast_clock_def)
  have i: "map_of [(''start_time'', VStr ''2025-01-01T00:00:00''),
                   (''iterations'', VInt 0), (''max_iterations'', VInt 50)] ''iterations'' =
             Some (VInt 0)"
    by simp
  have "tool_registry clobber_env
          (tool \<lparr>name = ''a'', tool = ''clobber'', params = Some []\<rparr>) = Some clobber_tool \<and>
        clobber_tool (st (start one_node clobber_env []))
          (params \<lparr>name = ''a'', tool = ''clobber'', params = Some []\<rparr>) =
          Returned [(''_meta'', VDict [(''iterations'', VInt 7), (''max_iterations'', VInt 50)])] \<and>
        distinct (map fst [(''_meta'',
           VDict [(''iterations'', VInt 7), (''max_iterations'', VInt 50)])]) \<and>
        (''_meta'', VDict [(''iterations'', VInt 7), (''max_iterations'', VInt 50)])
          \<in> set [(''_meta'', VDict [(''iterations'', VInt 7), (''max_iterations'', VInt 50)])]"
    by (simp add: clobber_env_def clobber_tool_def)
  with visit_metadata_merge [OF n m i, of clobber_env]
  show "map_of (fst (invoke clobber_env \<lparr>name = ''a'', tool = ''clobber'', params = Some []\<rparr>
                  (st (start one_node clobber_env [])))) ''_meta'' =
     Some (VDict [(''iterations'', VInt 7), (''max_iterations'', VInt 50)])"
    by blast
qed

section \<open>Edges to undeclared nodes\<close>

text \<open>
  \<^bold>\<open>C2\<close>, as the claim has it, fails: the loop looks the selected name up with
  \<^verbatim>\<open>self.nodes[current_node]\<close>, and nothing catches the \<^verbatim>\<open>KeyError\<close>. Node \<open>a\<close> has an
  edge to \<open>ghost\<close>, which is not declared: the run visits \<open>a\<close>, selects \<open>ghost\<close> and
  raises; no state is returned.
\<close>

theorem dangling_edge_raises:
  "execute dangling lit_env [] None = Some (Inl (KeyError ''ghost'', at_ghost))"
  by code_simp

text \<open>
  \<^bold>\<open>C2\<close>, amended. When the selected name is not empty and not a node of the graph, the
  loop raises \<^verbatim>\<open>KeyError\<close> for that name as long as the iteration count is below the
  cap, and the state and log are as the last visit left them; when the cap has been
  reached the loop ends normally.
\<close>

theorem run_loop_dangling_target:
  assumes "cur r = Some n" and "n \<noteq> []" and "map_of (nodes W) n = None"
    and "meta_get (st r) ''iterations'' = Inr (VInt i)"
    and "meta_get (st r) ''max_iterations'' = Inr (VInt c)"
  shows "run_loop W E ws r = Some (if i < c then Inl (KeyError n, r) else Inr r)"
proof -
  have t: "loop_test r = Inr (if i < c then Some n else None)"
    using assms by (simp add: loop_test_def)
  have v: "visit W E ws n r = Inl (KeyError n, r)"
    using assms(3) by (simp add: visit_def)
  show ?thesis
    by (subst run_loop.simps) (simp add: t v)
qed

theorem run_loop_dangling_target_witness:
  "cur at_ghost = Some ''ghost'' \<and> map_of (nodes dangling) ''ghost'' = None \<and>
   meta_get (st at_ghost) ''iterations'' = Inr (VInt 1) \<and>
   meta_get (st at_ghost) ''max_iterations'' = Inr (VInt 50) \<and>
   run_loop dangling lit_env None at_ghost = Some (Inl (KeyError ''ghost'', at_ghost))"
  using run_loop_dangling_target [of at_ghost "''ghost''" dangling 1 50 lit_env None]
  by (simp add: at_ghost_def dangling_def init_def build_nodes_def meta_get_def)

section \<open>Termination and the iteration cap\<close>

lemma incr_iterations_ok:
  assumes "meta_ok s i"
  shows "\<exists>s'. incr_iterations s = Inr s' \<and> meta_ok s' (i + 1)"
proof -
  from assms obtain v where v: "map_of s ''_meta'' = Some v"
    by (auto simp: meta_ok_def meta_get_def split: option.splits)
  with assms obtain m where m: "v = VDict m"
    by (cases v) (auto simp: meta_ok_def meta_get_def)
  from assms v m have it: "map_of m ''iterations'' = Some (VInt i)"
    and mx: "map_of m ''max_iterations'' = Some (VInt 50)"
    by (auto simp: meta_ok_def meta_get_def split: option.splits)
  show ?thesis
    using v m it mx
    by (simp add: incr_iterations_def meta_get_def meta_set_def py_add_int_def meta_ok_def
        update_conv)
qed

lemma visit_ok:
  assumes "keeps_meta E" and "meta_ok (st r) i"
  shows "(map_of (nodes W) n = None \<and> visit W E ws n r = Inl (KeyError n, r)) \<or>
         (\<exists>r' entry. visit W E ws n r = Inr r' \<and> meta_ok (st r') (i + 1) \<and>
                elog r' = elog r @ [entry])"
proof (cases "map_of (nodes W) n")
  case None
  then show ?thesis by (simp add: visit_def)
next
  case (Some nc)
  obtain s1 fields where inv: "invoke E nc (st r) = (s1, fields)"
    by (cases "invoke E nc (st r)")
  have "map_of s1 ''_meta'' = map_of (st r) ''_meta''"
    using invoke_keeps_meta [OF assms(1), of nc "st r"] inv by simp
  then have "meta_ok s1 i"
    using assms(2) by (simp add: meta_ok_def meta_get_def)
  then obtain s2 where s2: "incr_iterations s1 = Inr s2" "meta_ok s2 (i + 1)"
    using incr_iterations_ok by blast
  have it: "meta_get (st r) ''iterations'' = Inr (VInt i)"
    using assms(2) by (simp add: meta_ok_def)
  show ?thesis
    by (rule disjI2) (simp add: visit_def Some it inv s2 Let_def)
qed

lemma loop_test_ok:
  assumes "meta_ok (st r) i"
  shows "loop_test r =
           Inr (case cur r of None \<Rightarrow> None
                | Some n \<Rightarrow> if n \<noteq> [] \<and> i < 50 then Some n else None)"
  using assms by (simp add: loop_test_def meta_ok_def split: option.splits)

text \<open>
  With the metadata intact the loop returns: the distance of the count from the cap
  shrinks with every visit.
\<close>

lemma run_loop_total:
  assumes "keeps_meta E"
  shows "meta_ok (st r) i \<Longrightarrow> i \<le> 50 \<Longrightarrow> nat (50 - i) = k \<Longrightarrow>
         \<exists>out new. run_loop W E ws r = Some out \<and> elog (run_of out) = elog r @ new \<and>
            length new \<le> k \<and> missing_node W out \<and>
            (\<forall>r'. out = Inr r' \<longrightarrow> (\<exists>j. meta_ok (st r') j))"
proof (induction k arbitrary: r i)
  case 0
  then have "i = 50" by simp
  with 0 have "loop_test r = Inr None"
    by (simp add: loop_test_ok split: option.splits)
  then have "run_loop W E ws r = Some (Inr r)"
    by (subst run_loop.simps) simp
  with 0 show ?case
    by (auto simp: run_of_def missing_node_def)
next
  case (Suc k)
  then have lt: "i < 50" by simp
  show ?case
  proof (cases "loop_test r")
    case (Inl e)
    with Suc.prems(1) show ?thesis by (simp add: loop_test_ok)
  next
    case (Inr c)
    show ?thesis
    proof (cases c)
      case None
      with Inr have "run_loop W E ws r = Some (Inr r)"
        by (subst run_loop.simps) simp
      with Suc.prems show ?thesis
        by (auto simp: run_of_def missing_node_def)
    next
      case (Some n)
      from visit_ok [OF assms Suc.prems(1), of W n ws]
      show ?thesis
      proof (elim disjE conjE exE)
        assume a: "map_of (nodes W) n = None" "visit W E ws n r = Inl (KeyError n, r)"
        with Inr Some have "run_loop W E ws r = Some (Inl (KeyError n, r))"
          by (subst run_loop.simps) simp
        with a show ?thesis
          by (auto simp: run_of_def missing_node_def)
      next
        fix r' entry
        assume a: "visit W E ws n r = Inr r'" "meta_ok (st r') (i + 1)"
          "elog r' = elog r @ [entry]"
        from Suc.prems lt have "i + 1 \<le> 50" "nat (50 - (i + 1)) = k" by simp_all
        from Suc.IH [OF a(2) this] obtain out new where
          o: "run_loop W E ws r' = Some out" "elog (run_of out) = elog r' @ new"
             "length new \<le> k" "missing_node W out"
             "\<forall>r''. out = Inr r'' \<longrightarrow> (\<exists>j. meta_ok (st r'') j)"
          by blast
        from Inr Some a(1) have "run_loop W E ws r = run_loop W E ws r'"
          by (subst run_loop.simps) simp
        with o a(3) show ?thesis
          by (intro exI [of _ out] exI [of _ "entry # new"]) simp
      qed
    qed
  qed
qed

lemma finish_ok:
  assumes "meta_ok (st r) j"
  shows "\<exists>r'. finish E r = Inr r' \<and> elog r' = elog r"
proof -
  from assms obtain v where v: "map_of (st r) ''_meta'' = Some v"
    by (auto simp: meta_ok_def meta_get_def split: option.splits)
  with assms obtain m where m: "v = VDict m"
    by (cases v) (auto simp: meta_ok_def meta_get_def)
  show ?thesis
    using v m by (simp add: finish_def meta_set_def update_conv)
qed

lemma start_ok: "meta_ok (st (start W E s0)) 0"
  by (simp add: start_def meta_ok_def meta_get_def update_conv)

text \<open>The run of \<open>self_loop\<close> with the tool that returns fresh metadata never leaves the loop.\<close>

lemma spinning_test: "spinning r \<Longrightarrow> loop_test r = Inr (Some ''a'')"
  by (auto simp: spinning_def loop_test_ok)

lemma spinning_visit:
  assumes "spinning r"
  shows "\<exists>r'. visit self_loop reset_env ws ''a'' r = Inr r' \<and> spinning r'"
proof -
  from assms obtain i where i: "meta_get (st r) ''iterations'' = Inr (VInt i)"
    by (auto simp: spinning_def meta_ok_def)
  have n: "map_of (nodes self_loop) ''a'' =
             Some \<lparr>name = ''a'', tool = ''reset'', params = Some []\<rparr>"
    by (simp add: self_loop_def init_def build_nodes_def)
  have inv: "invoke reset_env \<lparr>name = ''a'', tool = ''reset'', params = Some []\<rparr> (st r) =
      (AList.update ''_meta'' (VDict [(''iterations'', VInt 0), (''max_iterations'', VInt 50)])
         (st r),
       [(''status'', VStr ''success''),
        (''output'', VDict [(''_meta'', VDict [(''iterations'', VInt 0),
                                               (''max_iterations'', VInt 50)])])])"
    by (simp add: invoke_def reset_env_def reset_tool_def dict_update_def)
  have inc: "incr_iterations
       (AList.update ''_meta'' (VDict [(''iterations'', VInt 0), (''max_iterations'', VInt 50)])
         (st r)) =
     Inr (AList.update ''_meta'' (VDict [(''iterations'', VInt 1), (''max_iterations'', VInt 50)])
       (AList.update ''_meta'' (VDict [(''iterations'', VInt 0), (''max_iterations'', VInt 50)])
         (st r)))"
    by (simp add: incr_iterations_def meta_get_def meta_set_def update_conv py_add_int_def)
  have nx: "get_next_node self_loop reset_env ''a'' s = Some ''a''" for s
    by (simp add: self_loop_def get_next_node_init evaluate_condition_def)
  have ok: "meta_ok (AList.update ''_meta''
       (VDict [(''iterations'', VInt 1), (''max_iterations'', VInt 50)]) s) 1" for s
    by (simp add: meta_ok_def meta_get_def update_conv)
  show ?thesis
    by (simp add: visit_def n i inv inc nx ok Let_def spinning_def)
qed

lemma spinning_forever:
  assumes "run_loop W E ws r = Some y"
  shows "W = self_loop \<longrightarrow> E = reset_env \<longrightarrow> \<not> spinning r"
proof (rule run_loop.raw_induct
    [where P = "\<lambda>W E ws r y. W = self_loop \<longrightarrow> E = reset_env \<longrightarrow> \<not> spinning r", OF _ assms])
  fix loop :: "WorkflowEngine \<Rightarrow> env \<Rightarrow> (pyval \<Rightarrow> bool) option \<Rightarrow> run_state \<Rightarrow> outcome option"
    and W E ws r y
  assume IH: "\<And>W E ws r y. loop W E ws r = Some y \<Longrightarrow>
                W = self_loop \<longrightarrow> E = reset_env \<longrightarrow> \<not> spinning r"
    and eq: "(case loop_test r of
                Inl e \<Rightarrow> Some (Inl (e, r))
              | Inr None \<Rightarrow> Some (Inr r)
              | Inr (Some n) \<Rightarrow>
                  (case visit W E ws n r of
                     Inl f \<Rightarrow> Some (Inl f)
                   | Inr r' \<Rightarrow> loop W E ws r')) = Some y"
  show "W = self_loop \<longrightarrow> E = reset_env \<longrightarrow> \<not> spinning r"
  proof (intro impI notI)
    assume W: "W = self_loop" and E: "E = reset_env" and sp: "spinning r"
    from spinning_visit [OF sp, of ws] obtain r' where
      v: "visit self_loop reset_env ws ''a'' r = Inr r'" and s: "spinning r'"
      by blast
    from eq have "loop W E ws r' = Some y"
      by (simp add: spinning_test [OF sp] W E v)
    from IH [OF this] W E s show False by simp
  qed
qed

text \<open>
  \<^bold>\<open>C1\<close>, as the claim has it, fails: the count and the cap live in the state under
  \<^verbatim>\<open>_meta\<close>, where the merge of a tool's output can replace them. The tool of the
  self-loop returns metadata with a count of 0 at every visit, so the loop test sees a
  count of 1 forever: \<^verbatim>\<open>execute\<close> does not return.
\<close>

theorem execute_may_run_forever: "execute self_loop reset_env [] None = None"
proof (cases "run_loop self_loop reset_env None (start self_loop reset_env [])")
  case None
  then show ?thesis by (simp add: execute_def)
next
  case (Some y)
  have "spinning (start self_loop reset_env [])"
    by (simp add: spinning_def start_def self_loop_def init_def build_nodes_def meta_ok_def
        meta_get_def)
  with spinning_forever [OF Some] show ?thesis by simp
qed

text \<open>
  \<^bold>\<open>C1\<close>, amended. When no registered tool returns the key \<^verbatim>\<open>_meta\<close>, \<^verbatim>\<open>execute\<close>
  terminates for every graph and every initial state: it returns the final state, or it
  raises \<^verbatim>\<open>KeyError\<close> for a selected node that the graph does not have. Either way the
  run appends at most 50 entries to the log, one per visit; 50 is the cap that
  \<^verbatim>\<open>execute\<close> itself writes into the metadata.
\<close>

theorem execute_terminates_within_cap:
  assumes "keeps_meta E"
  shows "\<exists>out new. execute W E s0 ws = Some out \<and>
           elog (run_of out) = execution_log W @ new \<and> length new \<le> 50 \<and>
           missing_node W out"
proof -
  have "\<exists>out new. run_loop W E ws (start W E s0) = Some out \<and>
          elog (run_of out) = elog (start W E s0) @ new \<and> length new \<le> 50 \<and>
          missing_node W out \<and> (\<forall>r'. out = Inr r' \<longrightarrow> (\<exists>j. meta_ok (st r') j))"
    by (rule run_loop_total [OF assms start_ok]) simp_all
  then obtain out new where
    o: "run_loop W E ws (start W E s0) = Some out"
       "elog (run_of out) = elog (start W E s0) @ new" "length new \<le> 50" "missing_node W out"
       "\<forall>r'. out = Inr r' \<longrightarrow> (\<exists>j. meta_ok (st r') j)"
    by auto
  have e0: "elog (start W E s0) = execution_log W" by (simp add: start_def)
  show ?thesis
  proof (cases out)
    case (Inl f)
    with o e0 have "execute W E s0 ws = Some out" by (simp add: execute_def)
    with o e0 show ?thesis by auto
  next
    case (Inr r')
    with o obtain j where "meta_ok (st r') j" by blast
    from finish_ok [OF this, of E] obtain r'' where
      f: "finish E r' = Inr r''" "elog r'' = elog r'" by blast
    with o Inr have "execute W E s0 ws = Some (Inr r'')" by (simp add: execute_def)
    moreover have "elog (run_of (Inr r'')) = execution_log W @ new"
      using o(2) Inr f e0 by (simp add: run_of_def)
    moreover have "missing_node W (Inr r'')" by (simp add: missing_node_def)
    ultimately show ?thesis using o(3) by blast
  qed
qed

theorem execute_terminates_within_cap_witness:
  "keeps_meta score_env \<and>
   (\<exists>out new. execute score_loop score_env [(''score'', VInt 50)] None = Some out \<and>
      elog (run_of out) = execution_log score_loop @ new \<and> length new \<le> 50 \<and>
      missing_node score_loop out)"
  using execute_terminates_within_cap [OF keeps_meta_score_env] keeps_meta_score_env
  by blast

section \<open>The refinement loop\<close>

text \<open>
  \<^bold>\<open>C9\<close>, as the claim has it, fails: the first visit raises the score from 50 to 80, the
  condition \<^verbatim>\<open>score < 70\<close> is false from then on, and the loop is left after one visit,
  with one entry in the log. The cap plays no part: the result is the same with the
  cap of 50 that \<^verbatim>\<open>execute\<close> sets and with a cap of 3.
\<close>

theorem score_loop_not_three_visits:
  "(case execute score_loop score_env [(''score'', VInt 50)] None of
      Some (Inr r) \<Rightarrow> length (elog r) | _ \<Rightarrow> 0) = 1 \<and>
   (case run_loop score_loop score_env None capped_at_3 of
      Some (Inr r) \<Rightarrow> length (elog r) | _ \<Rightarrow> 0) = 1"
  by code_simp

text \<open>
  \<^bold>\<open>C9\<close>, amended. With initial score 50, a tool that adds 30 and a self-loop taken while
  the score is below 70, the run completes after exactly one visit of the node: the
  final score is 80, the iteration count is 1 and the log holds exactly one entry, of
  that node, with status \<^verbatim>\<open>success\<close>.
\<close>

theorem score_loop_one_visit:
  "execute score_loop score_env [(''score'', VInt 50)] None =
     Some (Inr \<lparr>cur = None,
                st = [(''score'', VInt 80),
                      (''_meta'',
                       VDict [(''start_time'', VStr ''2025-01-01T00:00:00''),
                              (''iterations'', VInt 1), (''max_iterations'', VInt 50),
                              (''end_time'', VStr ''2025-01-01T00:00:00''),
                              (''execution_log'',
                               VList [VDict [(''node'', VStr ''improve''),
                                             (''timestamp'', VStr ''2025-01-01T00:00:00''),
                                             (''iteration'', VInt 0),
                                             (''status'', VStr ''success''),
                                             (''output'', VDict [(''score'', VInt 80)])]])])],
                elog = [VDict [(''node'', VStr ''improve''),
                               (''timestamp'', VStr ''2025-01-01T00:00:00''),
                               (''iteration'', VInt 0), (''status'', VStr ''success''),
                               (''output'', VDict [(''score'', VInt 80)])]],
                clk = 3, sent = []\<rparr>)"
  by code_simp

end
